theory Spec2Isabelle
  imports Complex_Main "HOL-Library.AList" "HOL-Library.Multiset"
begin

section \<open>Python values used by app.py\<close>

text \<open>
  Errors are values. The first four are the outcomes the service reports itself
  (the \<open>RuntimeError\<close> of \<open>select_battle\<close> and the three 400 responses of
  \<open>api_battle_result\<close>); the others are the Python exceptions the modelled code
  can raise: a missing dictionary key, \<open>set.pop\<close> on an empty set, a stored
  document whose values do not have the types of \<open>EloState\<close>, \<open>random.sample\<close>
  on a population that is too small, and \<open>random.choice\<close> on an empty list.
\<close>

datatype error =
    NoEligibleCategory
  | MissingField
  | UnknownToken
  | InvalidWinner
  | KeyError string
  | PopFromEmptySet
  | TypeError
  | ValueError
  | IndexError

text \<open>
  A Python \<open>dict\<close> keeps its keys in insertion order, and the order of
  \<open>elos\<close> decides ties on the leaderboard, so a dictionary is an association
  list. Floats are modelled as real numbers.
\<close>

type_synonym 'v dict = "(string \<times> 'v) list"

definition get_default :: "'v dict \<Rightarrow> string \<Rightarrow> 'v \<Rightarrow> 'v" where
  \<comment> \<open>\<open>d.get(k, default)\<close>\<close>
  "get_default d k dflt = (case map_of d k of None \<Rightarrow> dflt | Some v \<Rightarrow> v)"

definition setdefault :: "string \<Rightarrow> 'v \<Rightarrow> 'v dict \<Rightarrow> 'v dict" where
  \<comment> \<open>\<open>d.setdefault(k, v)\<close>: a new key goes to the end, a present key stays\<close>
  "setdefault k v d = (case map_of d k of None \<Rightarrow> d @ [(k, v)] | Some _ \<Rightarrow> d)"

text \<open>
  What \<open>json.load\<close> returns for the state file: numbers and objects. Strings,
  booleans, null and arrays never occur in a file the program writes and are
  left out of the type.
\<close>

datatype json = JInt int | JFloat real | JDict "(string \<times> json) list"

fun as_float :: "json \<Rightarrow> real option" where
  "as_float (JInt i) = Some (of_int i)"
| "as_float (JFloat r) = Some r"
| "as_float (JDict _) = None"

fun as_int :: "json \<Rightarrow> int option" where
  "as_int (JInt i) = Some i"
| "as_int (JFloat _) = None"
| "as_int (JDict _) = None"

fun typed_items :: "(json \<Rightarrow> 'a option) \<Rightarrow> (string \<times> json) list \<Rightarrow> 'a dict option" where
  "typed_items f [] = Some []"
| "typed_items f ((k, v) # kvs) =
     (case f v of
        None \<Rightarrow> None
      | Some a \<Rightarrow> (case typed_items f kvs of None \<Rightarrow> None | Some r \<Rightarrow> Some ((k, a) # r)))"

fun typed_dict :: "(json \<Rightarrow> 'a option) \<Rightarrow> json \<Rightarrow> error + 'a dict" where
  \<comment> \<open>the value read as a \<open>dict[str, float]\<close> or \<open>dict[str, int]\<close>; Python fails on
      any other value when it is first used (\<open>setdefault\<close>, arithmetic, sorting)\<close>
  "typed_dict f (JDict kvs) = (case typed_items f kvs of None \<Rightarrow> Inl TypeError | Some d \<Rightarrow> Inr d)"
| "typed_dict f (JInt _) = Inl TypeError"
| "typed_dict f (JFloat _) = Inl TypeError"

fun py_int :: "json \<Rightarrow> error + int" where
  \<comment> \<open>\<open>int(x)\<close>: truncation towards zero on a float\<close>
  "py_int (JInt i) = Inr i"
| "py_int (JFloat r) = Inr (if 0 \<le> r then \<lfloor>r\<rfloor> else \<lceil>r\<rceil>)"
| "py_int (JDict _) = Inl TypeError"

definition round_half_even :: "real \<Rightarrow> int" where
  "round_half_even x =
     (let f = \<lfloor>x\<rfloor>; d = x - of_int f
      in if d < 1 / 2 then f else if 1 / 2 < d then f + 1 else if even f then f else f + 1)"

definition py_round1 :: "real \<Rightarrow> real" where
  \<comment> \<open>\<open>round(score, 1)\<close>\<close>
  "py_round1 x = of_int (round_half_even (x * 10)) / 10"

section \<open>Startup data\<close>

record config =
  MODELS :: "string list"
  JOKES :: "(string list) dict dict"

definition index_append :: "string \<Rightarrow> string \<Rightarrow> (string list) dict \<Rightarrow> (string list) dict" where
  \<comment> \<open>\<open>index.setdefault(category, []).append(model)\<close>\<close>
  "index_append category model index =
     (case map_of index category of
        None \<Rightarrow> index @ [(category, [model])]
      | Some models \<Rightarrow> AList.update category (models @ [model]) index)"

definition index_model :: "config \<Rightarrow> string \<Rightarrow> (string list) dict \<Rightarrow> (string list) dict" where
  \<comment> \<open>the inner loop over \<open>JOKES.get(model, {}).items()\<close>\<close>
  "index_model cfg model index =
     fold (\<lambda>(category, jokes) index. if jokes \<noteq> [] then index_append category model index else index)
       (get_default (JOKES cfg) model []) index"

definition build_category_index :: "config \<Rightarrow> (string list) dict" where
  "build_category_index cfg =
     (let index = fold (index_model cfg) (MODELS cfg) []
      in filter (\<lambda>(category, models). 2 \<le> length models) index)"

definition CATEGORY_INDEX :: "config \<Rightarrow> (string list) dict" where
  "CATEGORY_INDEX cfg = build_category_index cfg"

text \<open>
  Two notions the properties of the index are stated with. A Python \<open>dict\<close>
  has no key twice; for the inner dictionaries of \<open>JOKES\<close>, which the code both
  iterates over and indexes, this is \<open>jokes_wellformed\<close>. The pool of a model in a
  category is \<open>JOKES[model][category]\<close>, empty when either key is absent.
\<close>

definition jokes_wellformed :: "config \<Rightarrow> bool" where
  "jokes_wellformed cfg = list_all (\<lambda>(model, by_category). distinct (map fst by_category)) (JOKES cfg)"

definition pool :: "config \<Rightarrow> string \<Rightarrow> string \<Rightarrow> string list" where
  "pool cfg model cat =
     (case map_of (JOKES cfg) model of None \<Rightarrow> [] | Some by_category \<Rightarrow> get_default by_category cat [])"

section \<open>Rating store\<close>

record EloState =
  elos :: "real dict"
  votes :: "int dict"
  total_votes :: int

record battle =
  model_a :: string
  model_b :: string

text \<open>
  The mutable state of the service: the content of \<open>elo_state.json\<close>
  (\<open>None\<close> when the file does not exist) and the in-memory \<open>ACTIVE_BATTLES\<close>.
  Requests are handled one after the other.
\<close>

record sys =
  ELO_FILE :: "json option"
  ACTIVE_BATTLES :: "string \<rightharpoonup> battle"

definition backfill :: "string list \<Rightarrow> real dict \<times> int dict \<Rightarrow> real dict \<times> int dict" where
  \<comment> \<open>\<open>for model in MODELS: elos.setdefault(model, 1500.0); votes.setdefault(model, 0)\<close>\<close>
  "backfill models ev =
     fold (\<lambda>model (elos, votes). (setdefault model 1500 elos, setdefault model 0 votes)) models ev"

definition load_state :: "string list \<Rightarrow> json option \<Rightarrow> error + EloState" where
  "load_state models file =
     (let stored = (case file of Some doc \<Rightarrow> doc | None \<Rightarrow> JDict [])
      in case stored of
           JDict kvs \<Rightarrow>
             (let (elos_j, votes_j, total_j) =
                    (if map_of kvs ''elos'' \<noteq> None
                     then (get_default kvs ''elos'' (JDict []),
                           get_default kvs ''votes'' (JDict []),
                           get_default kvs ''total_votes'' (JInt 0))
                     else (stored, JDict [], JInt 0))
              in case typed_dict as_float elos_j of
                   Inl e \<Rightarrow> Inl e
                 | Inr elos0 \<Rightarrow>
                     (case typed_dict as_int votes_j of
                        Inl e \<Rightarrow> Inl e
                      | Inr votes0 \<Rightarrow>
                          (case py_int total_j of
                             Inl e \<Rightarrow> Inl e
                           | Inr tv \<Rightarrow>
                               (let (elos1, votes1) = backfill models (elos0, votes0)
                                in Inr \<lparr>elos = elos1, votes = votes1, total_votes = tv\<rparr>))))
         | JInt _ \<Rightarrow> Inl TypeError
         | JFloat _ \<Rightarrow> Inl TypeError)"

definition save_state :: "EloState \<Rightarrow> json" where
  \<comment> \<open>the document \<open>json.dump(state, handle)\<close> writes\<close>
  "save_state state =
     JDict [(''elos'', JDict (map (\<lambda>(k, v). (k, JFloat v)) (elos state))),
            (''votes'', JDict (map (\<lambda>(k, v). (k, JInt v)) (votes state))),
            (''total_votes'', JInt (total_votes state))]"

definition read_state :: "config \<Rightarrow> sys \<Rightarrow> error + EloState" where
  "read_state cfg s = load_state (MODELS cfg) (ELO_FILE s)"

definition update_state ::
  "config \<Rightarrow> (EloState \<Rightarrow> error + EloState \<times> 'a) \<Rightarrow> sys \<Rightarrow> sys \<times> (error + EloState \<times> 'a)" where
  \<comment> \<open>load, mutate, save; an exception in the load or in the mutator leaves the file as it was\<close>
  "update_state cfg mutator s =
     (case load_state (MODELS cfg) (ELO_FILE s) of
        Inl e \<Rightarrow> (s, Inl e)
      | Inr state \<Rightarrow>
          (case mutator state of
             Inl e \<Rightarrow> (s, Inl e)
           | Inr (state', result) \<Rightarrow> (s\<lparr>ELO_FILE := Some (save_state state')\<rparr>, Inr (state', result))))"

section \<open>Leaderboard and rating engine\<close>

record entry =
  entry_rank :: nat
  entry_model :: string
  entry_elo :: real
  entry_votes :: int

definition ordered_items :: "real dict \<Rightarrow> (string \<times> real) list" where
  \<comment> \<open>\<open>sorted(elos.items(), key=lambda item: item[1], reverse=True)\<close>: a stable sort,
      descending, equal ratings staying in the order of the dictionary\<close>
  "ordered_items elos_d = sort_key (\<lambda>item. - snd item) elos_d"

definition build_leaderboard :: "real dict \<Rightarrow> int dict \<Rightarrow> entry list" where
  "build_leaderboard elos_d votes_d =
     map (\<lambda>(position, (model, score)).
            \<lparr>entry_rank = position, entry_model = model, entry_elo = py_round1 score,
             entry_votes = get_default votes_d model 0\<rparr>)
       (enumerate 1 (ordered_items elos_d))"

definition elo_update :: "real dict \<Rightarrow> string \<Rightarrow> string \<Rightarrow> real \<Rightarrow> error + real dict" where
  "elo_update elos_d winner loser k =
     (case map_of elos_d winner of
        None \<Rightarrow> Inl (KeyError winner)
      | Some winner_rating \<Rightarrow>
          (case map_of elos_d loser of
             None \<Rightarrow> Inl (KeyError loser)
           | Some loser_rating \<Rightarrow>
               (let expected_winner = 1 / (1 + 10 powr ((loser_rating - winner_rating) / 400));
                    expected_loser = 1 / (1 + 10 powr ((winner_rating - loser_rating) / 400))
                in Inr (AList.update loser (loser_rating + k * (0 - expected_loser))
                          (AList.update winner (winner_rating + k * (1 - expected_winner)) elos_d)))))"

definition record_battle_result :: "EloState \<Rightarrow> string \<Rightarrow> string \<Rightarrow> error + EloState \<times> entry list" where
  "record_battle_result state winner loser =
     (case elo_update (elos state) winner loser 32 of
        Inl e \<Rightarrow> Inl e
      | Inr elos' \<Rightarrow>
          (let votes' = AList.update winner (get_default (votes state) winner 0 + 1) (votes state);
               state' = \<lparr>elos = elos', votes = votes', total_votes = total_votes state + 1\<rparr>
           in Inr (state', build_leaderboard elos' votes')))"

section \<open>Matchmaker\<close>

text \<open>
  The random source is an argument: the numbers \<open>random.choice\<close> and
  \<open>random.sample\<close> draw, reduced to the range they draw from, and the string
  \<open>uuid.uuid4()\<close> returns. Every outcome of the Python calls is the value of
  the model at some argument.
\<close>

record rnd =
  pick_category :: nat
  pick_first :: nat
  pick_second :: nat
  pick_joke_a :: nat
  pick_joke_b :: nat
  uuid4 :: string

definition random_choice :: "'a list \<Rightarrow> nat \<Rightarrow> error + 'a" where
  "random_choice xs r = (if xs = [] then Inl IndexError else Inr (xs ! (r mod length xs)))"

definition random_sample2 :: "'a list \<Rightarrow> nat \<Rightarrow> nat \<Rightarrow> error + 'a \<times> 'a" where
  \<comment> \<open>\<open>random.sample(xs, 2)\<close>: two different positions of the list\<close>
  "random_sample2 xs r1 r2 =
     (if length xs < 2 then Inl ValueError
      else (let i = r1 mod length xs;
                j0 = r2 mod (length xs - 1);
                j = (if j0 < i then j0 else Suc j0)
            in Inr (xs ! i, xs ! j)))"

definition lookup :: "'v dict \<Rightarrow> string \<Rightarrow> error + 'v" where
  \<comment> \<open>\<open>d[k]\<close>\<close>
  "lookup d k = (case map_of d k of None \<Rightarrow> Inl (KeyError k) | Some v \<Rightarrow> Inr v)"

record contestant =
  contestant_id :: string
  contestant_joke :: string
  contestant_rank :: "nat option"

record comparison =
  cmp_battle_id :: string
  cmp_category :: string
  cmp_contestants :: "contestant list"

definition make_contestant ::
  "config \<Rightarrow> (string \<rightharpoonup> nat) \<Rightarrow> string \<Rightarrow> string \<Rightarrow> nat \<Rightarrow> error + contestant" where
  \<comment> \<open>the body of \<open>for model in (model_a, model_b)\<close>; rank \<open>None\<close> is the \<open>"-"\<close> of the source\<close>
  "make_contestant cfg rank_lookup model cat r =
     (case lookup (JOKES cfg) model of
        Inl e \<Rightarrow> Inl e
      | Inr by_category \<Rightarrow>
          (case lookup by_category cat of
             Inl e \<Rightarrow> Inl e
           | Inr jokes \<Rightarrow>
               (case random_choice jokes r of
                  Inl e \<Rightarrow> Inl e
                | Inr joke \<Rightarrow>
                    Inr \<lparr>contestant_id = model, contestant_joke = joke,
                         contestant_rank = rank_lookup model\<rparr>)))"

definition select_battle :: "config \<Rightarrow> rnd \<Rightarrow> sys \<Rightarrow> sys \<times> (error + comparison)" where
  "select_battle cfg rn s =
     (if CATEGORY_INDEX cfg = [] then (s, Inl NoEligibleCategory)
      else
        (case read_state cfg s of
           Inl e \<Rightarrow> (s, Inl e)
         | Inr state \<Rightarrow>
             (let leaderboard = build_leaderboard (elos state) (votes state);
                  rank_lookup = map_of (rev (map (\<lambda>e. (entry_model e, entry_rank e)) leaderboard))
              in case random_choice (map fst (CATEGORY_INDEX cfg)) (pick_category rn) of
                   Inl e \<Rightarrow> (s, Inl e)
                 | Inr cat \<Rightarrow>
                     (case lookup (CATEGORY_INDEX cfg) cat of
                        Inl e \<Rightarrow> (s, Inl e)
                      | Inr models \<Rightarrow>
                          (case random_sample2 models (pick_first rn) (pick_second rn) of
                             Inl e \<Rightarrow> (s, Inl e)
                           | Inr (ma, mb) \<Rightarrow>
                               (case make_contestant cfg rank_lookup ma cat (pick_joke_a rn) of
                                  Inl e \<Rightarrow> (s, Inl e)
                                | Inr ca \<Rightarrow>
                                    (case make_contestant cfg rank_lookup mb cat (pick_joke_b rn) of
                                       Inl e \<Rightarrow> (s, Inl e)
                                     | Inr cb \<Rightarrow>
                                         (s\<lparr>ACTIVE_BATTLES := (ACTIVE_BATTLES s)
                                               (uuid4 rn \<mapsto> \<lparr>model_a = ma, model_b = mb\<rparr>)\<rparr>,
                                          Inr \<lparr>cmp_battle_id = uuid4 rn, cmp_category = cat,
                                               cmp_contestants = [ca, cb]\<rparr>))))))))"

section \<open>Battle ledger\<close>

definition submit_result :: "config \<Rightarrow> string \<Rightarrow> string \<Rightarrow> sys \<Rightarrow> sys \<times> (error + entry list \<times> int)" where
  \<comment> \<open>the body of \<open>with lock:\<close> in \<open>api_battle_result\<close>, and the response built from it\<close>
  "submit_result cfg battle_id winner s =
     (case ACTIVE_BATTLES s battle_id of
        None \<Rightarrow> (s, Inl UnknownToken)
      | Some battle \<Rightarrow>
          (let s1 = s\<lparr>ACTIVE_BATTLES := (ACTIVE_BATTLES s)(battle_id := None)\<rparr>;
               contenders = remdups [model_a battle, model_b battle]
           in if winner \<notin> set contenders then (s1, Inl InvalidWinner)
              else
                (case removeAll winner contenders of
                   [] \<Rightarrow> (s1, Inl PopFromEmptySet)
                 | loser # _ \<Rightarrow>
                     (case update_state cfg (\<lambda>elo_state. record_battle_result elo_state winner loser) s1 of
                        (s2, Inl e) \<Rightarrow> (s2, Inl e)
                      | (s2, Inr (state, leaderboard)) \<Rightarrow> (s2, Inr (leaderboard, total_votes state))))))"

definition api_battle_result ::
  "config \<Rightarrow> string option \<Rightarrow> string option \<Rightarrow> sys \<Rightarrow> sys \<times> (error + entry list \<times> int)" where
  \<comment> \<open>\<open>not battle_id or not winner\<close>: a field of the payload that is absent or the empty string\<close>
  "api_battle_result cfg battle_id winner s =
     (case battle_id of
        None \<Rightarrow> (s, Inl MissingField)
      | Some b \<Rightarrow>
          (case winner of
             None \<Rightarrow> (s, Inl MissingField)
           | Some w \<Rightarrow>
               if b = [] \<or> w = [] then (s, Inl MissingField) else submit_result cfg b w s))"

definition api_leaderboard :: "config \<Rightarrow> sys \<Rightarrow> error + entry list \<times> int" where
  "api_leaderboard cfg s =
     (case read_state cfg s of
        Inl e \<Rightarrow> Inl e
      | Inr state \<Rightarrow> Inr (build_leaderboard (elos state) (votes state), total_votes state))"

section \<open>Sequences of requests\<close>

datatype request =
    GetBattle rnd
  | PostBattleResult "string option" "string option"
  | GetLeaderboard

datatype response =
    Battle comparison
  | Result "entry list" int
  | Board "entry list" int

fun handle :: "config \<Rightarrow> request \<Rightarrow> sys \<Rightarrow> sys \<times> (error + response)" where
  "handle cfg (GetBattle rn) s =
     (case select_battle cfg rn s of
        (s1, Inl e) \<Rightarrow> (s1, Inl e)
      | (s1, Inr c) \<Rightarrow> (s1, Inr (Battle c)))"
| "handle cfg (PostBattleResult battle_id winner) s =
     (case api_battle_result cfg battle_id winner s of
        (s1, Inl e) \<Rightarrow> (s1, Inl e)
      | (s1, Inr (leaderboard, n)) \<Rightarrow> (s1, Inr (Result leaderboard n)))"
| "handle cfg GetLeaderboard s =
     (case api_leaderboard cfg s of
        Inl e \<Rightarrow> (s, Inl e)
      | Inr (leaderboard, n) \<Rightarrow> (s, Inr (Board leaderboard n)))"

fun run :: "config \<Rightarrow> request list \<Rightarrow> sys \<Rightarrow> sys \<times> (error + response) list" where
  "run cfg [] s = (s, [])"
| "run cfg (r # rs) s =
     (case handle cfg r s of
        (s1, out) \<Rightarrow> (case run cfg rs s1 of (s2, outs) \<Rightarrow> (s2, out # outs)))"

fun is_result :: "error + response \<Rightarrow> bool" where
  "is_result (Inr (Result _ _)) = True"
| "is_result _ = False"

definition successful_results :: "(error + response) list \<Rightarrow> nat" where
  "successful_results outs = length (filter is_result outs)"

definition startup :: "json option \<Rightarrow> sys" where
  \<comment> \<open>the state after import: the file as found, \<open>ACTIVE_BATTLES = {}\<close>\<close>
  "startup file = \<lparr>ELO_FILE = file, ACTIVE_BATTLES = Map.empty\<rparr>"

text \<open>
  \<open>issues t r\<close>: the request \<open>r\<close> is a battle request whose \<open>uuid.uuid4()\<close> returns
  the token \<open>t\<close>. \<open>battles_in_roster\<close>: both models of every pending battle are
  roster models.
\<close>

fun issues :: "string \<Rightarrow> request \<Rightarrow> bool" where
  "issues t (GetBattle rn) = (uuid4 rn = t)"
| "issues t (PostBattleResult _ _) = False"
| "issues t GetLeaderboard = False"

definition battles_in_roster :: "config \<Rightarrow> sys \<Rightarrow> bool" where
  "battles_in_roster cfg s =
     (\<forall>t b. ACTIVE_BATTLES s t = Some b \<longrightarrow>
        model_a b \<in> set (MODELS cfg) \<and> model_b b \<in> set (MODELS cfg))"

section \<open>Example data\<close>

text \<open>Concrete startup data and random draws, used to evaluate the model.\<close>

definition example_config :: config where
  "example_config =
     \<lparr>MODELS = [''a'', ''b''],
      JOKES = [(''a'', [(''pun'', [''ja1'', ''ja2''])]),
               (''b'', [(''pun'', [''jb'']), (''riddle'', [])])]\<rparr>"

definition example_rnd :: rnd where
  "example_rnd =
     \<lparr>pick_category = 0, pick_first = 1, pick_second = 0, pick_joke_a = 1, pick_joke_b = 0,
      uuid4 = ''t1''\<rparr>"

definition empty_config :: config where
  "empty_config = \<lparr>MODELS = [''a''], JOKES = [(''a'', [(''pun'', [''ja1''])])]\<rparr>"

definition duplicate_roster_config :: config where
  "duplicate_roster_config = \<lparr>MODELS = [''m'', ''m''], JOKES = [(''m'', [(''pun'', [''j''])])]\<rparr>"

definition example_pending :: sys where
  \<comment> \<open>the state after the battle request \<open>example_rnd\<close> on a fresh service\<close>
  "example_pending =
     \<lparr>ELO_FILE = None, ACTIVE_BATTLES = [''t1'' \<mapsto> \<lparr>model_a = ''b'', model_b = ''a''\<rparr>]\<rparr>"

definition example_board :: "entry list" where
  "example_board =
     [\<lparr>entry_rank = 1, entry_model = ''a'', entry_elo = 1516, entry_votes = 1\<rparr>,
      \<lparr>entry_rank = 2, entry_model = ''b'', entry_elo = 1484, entry_votes = 0\<rparr>]"

definition example_voted :: EloState where
  "example_voted =
     \<lparr>elos = [(''a'', 1516), (''b'', 1484)], votes = [(''a'', 1), (''b'', 0)], total_votes = 1\<rparr>"

section \<open>Rating engine\<close>



section \<open>Leaderboard\<close>

lemma ordered_items_mset: "mset (ordered_items elos_d) = mset elos_d"
  by (simp add: ordered_items_def)

lemma ordered_items_descending: "sorted_wrt (\<lambda>x y. snd y \<le> snd x) (ordered_items elos_d)"
proof -
  have "sorted (map (\<lambda>item. - snd item) (ordered_items elos_d))"
    unfolding ordered_items_def by (rule sorted_sort_key)
  then show ?thesis by (simp add: sorted_map)
qed

lemma leaderboard_ranks: "map entry_rank (build_leaderboard elos_d votes_d) = [1..<Suc (length elos_d)]"
proof -
  have "map entry_rank (map (\<lambda>(position, (model, score)).
            \<lparr>entry_rank = position, entry_model = model, entry_elo = py_round1 score,
             entry_votes = get_default votes_d model 0\<rparr>) (enumerate n items)) = [n..<n + length items]"
    for n and items :: "(string \<times> real) list"
    by (induction items arbitrary: n) (auto simp: upt_rec)
  from this [of 1 "ordered_items elos_d"] show ?thesis
    by (simp add: build_leaderboard_def ordered_items_def)
qed

lemma leaderboard_models:
  "map entry_model (build_leaderboard elos_d votes_d) = map fst (ordered_items elos_d)"
proof -
  have "map entry_model (map (\<lambda>(position, (model, score)).
            \<lparr>entry_rank = position, entry_model = model, entry_elo = py_round1 score,
             entry_votes = get_default votes_d model 0\<rparr>) (enumerate n items)) = map fst items"
    for n and items :: "(string \<times> real) list"
    by (induction items arbitrary: n) auto
  then show ?thesis by (simp add: build_leaderboard_def)
qed

lemma leaderboard_elos:
  "map entry_elo (build_leaderboard elos_d votes_d) = map (\<lambda>item. py_round1 (snd item)) (ordered_items elos_d)"
proof -
  have "map entry_elo (map (\<lambda>(position, (model, score)).
            \<lparr>entry_rank = position, entry_model = model, entry_elo = py_round1 score,
             entry_votes = get_default votes_d model 0\<rparr>) (enumerate n items))
        = map (\<lambda>item. py_round1 (snd item)) items"
    for n and items :: "(string \<times> real) list"
    by (induction items arbitrary: n) auto
  then show ?thesis by (simp add: build_leaderboard_def)
qed

lemma leaderboard_votes:
  "e \<in> set (build_leaderboard elos_d votes_d) \<Longrightarrow> entry_votes e = get_default votes_d (entry_model e) 0"
  by (auto simp: build_leaderboard_def)

lemma round_half_even_mono: "x \<le> y \<Longrightarrow> round_half_even x \<le> round_half_even y"
proof -
  assume xy: "x \<le> y"
  have fl: "\<lfloor>x\<rfloor> \<le> \<lfloor>y\<rfloor>" using xy by (rule floor_mono)
  show ?thesis
  proof (cases "\<lfloor>x\<rfloor> = \<lfloor>y\<rfloor>")
    case True
    then have "x - of_int \<lfloor>x\<rfloor> \<le> y - of_int \<lfloor>y\<rfloor>" using xy by simp
    then show ?thesis using True by (auto simp: round_half_even_def Let_def)
  next
    case False
    then have "\<lfloor>x\<rfloor> + 1 \<le> \<lfloor>y\<rfloor>" using fl by simp
    moreover have "round_half_even x \<le> \<lfloor>x\<rfloor> + 1" by (simp add: round_half_even_def Let_def)
    moreover have "\<lfloor>y\<rfloor> \<le> round_half_even y" by (simp add: round_half_even_def Let_def)
    ultimately show ?thesis by linarith
  qed
qed

lemma py_round1_mono: "x \<le> y \<Longrightarrow> py_round1 x \<le> py_round1 y"
  unfolding py_round1_def using round_half_even_mono [of "x * 10" "y * 10"]
  by (simp add: divide_right_mono)

lemma py_round1_close: "\<bar>py_round1 x - x\<bar> \<le> 1 / 20"
proof -
  have "\<bar>of_int (round_half_even y) - y\<bar> \<le> 1 / 2" for y :: real
    unfolding round_half_even_def Let_def by (auto; linarith)
  from this [of "x * 10"] show ?thesis unfolding py_round1_def by (simp add: field_simps abs_le_iff)
qed

lemma py_round1_tenths: "\<exists>n::int. py_round1 x = of_int n / 10"
  unfolding py_round1_def by blast

text \<open>
  Claim C6. The leaderboard is built from \<open>ordered_items\<close>, a rearrangement of
  the items of the rating dictionary in descending order of rating. Its ranks are
  \<open>1, 2, ..., N\<close> for \<open>N\<close> items, each entry shows the model of the item at its
  position, that item's rating rounded to one decimal (so the displayed ratings
  descend too) and the vote count of the model, 0 when it has none. Reading the
  leaderboard leaves the state as it is.
\<close>

theorem leaderboard_sorted_ranked:
  "mset (ordered_items elos_d) = mset elos_d
   \<and> sorted_wrt (\<lambda>x y. snd y \<le> snd x) (ordered_items elos_d)
   \<and> map entry_rank (build_leaderboard elos_d votes_d) = [1..<Suc (length elos_d)]
   \<and> map entry_model (build_leaderboard elos_d votes_d) = map fst (ordered_items elos_d)
   \<and> map entry_elo (build_leaderboard elos_d votes_d)
       = map (\<lambda>item. py_round1 (snd item)) (ordered_items elos_d)
   \<and> map entry_votes (build_leaderboard elos_d votes_d)
       = map (\<lambda>item. get_default votes_d (fst item) 0) (ordered_items elos_d)
   \<and> sorted_wrt (\<lambda>x y. entry_elo y \<le> entry_elo x) (build_leaderboard elos_d votes_d)
   \<and> fst (handle cfg GetLeaderboard s) = s"
proof -
  have votes_eq: "map entry_votes (build_leaderboard elos_d votes_d)
       = map (\<lambda>item. get_default votes_d (fst item) 0) (ordered_items elos_d)"
  proof -
    have "map entry_votes (map (\<lambda>(position, (model, score)).
            \<lparr>entry_rank = position, entry_model = model, entry_elo = py_round1 score,
             entry_votes = get_default votes_d model 0\<rparr>) (enumerate n items))
        = map (\<lambda>item. get_default votes_d (fst item) 0) items"
      for n and items :: "(string \<times> real) list"
      by (induction items arbitrary: n) auto
    then show ?thesis by (simp add: build_leaderboard_def)
  qed
  have "sorted_wrt (\<lambda>x y. py_round1 (snd y) \<le> py_round1 (snd x)) (ordered_items elos_d)"
    by (rule sorted_wrt_mono_rel [OF _ ordered_items_descending]) (simp add: py_round1_mono)
  then have "sorted_wrt (\<lambda>x y. y \<le> x) (map entry_elo (build_leaderboard elos_d votes_d))"
    by (simp add: leaderboard_elos sorted_wrt_map)
  then have shown: "sorted_wrt (\<lambda>x y. entry_elo y \<le> entry_elo x) (build_leaderboard elos_d votes_d)"
    by (simp add: sorted_wrt_map)
  have pure: "fst (handle cfg GetLeaderboard s) = s"
    by (simp split: sum.splits prod.splits)
  show ?thesis
    using ordered_items_mset ordered_items_descending leaderboard_ranks leaderboard_models
      leaderboard_elos votes_eq shown pure by blast
qed

theorem leaderboard_sorted_ranked_witness:
  "map entry_rank (build_leaderboard [(''a'', 1484.04), (''b'', 1516.25), (''c'', 1484.04)] [(''b'', 1)]) = [1, 2, 3]
   \<and> map entry_model (build_leaderboard [(''a'', 1484.04), (''b'', 1516.25), (''c'', 1484.04)] [(''b'', 1)]) = [''b'', ''a'', ''c'']
   \<and> map entry_elo (build_leaderboard [(''a'', 1484.04), (''b'', 1516.25), (''c'', 1484.04)] [(''b'', 1)]) = [1516.2, 1484, 1484]
   \<and> map entry_votes (build_leaderboard [(''a'', 1484.04), (''b'', 1516.25), (''c'', 1484.04)] [(''b'', 1)]) = [1, 0, 0]"
  using leaderboard_sorted_ranked [of "[(''a'', 1484.04), (''b'', 1516.25), (''c'', 1484.04)]" "[(''b'', 1)]"]
  by (simp add: ordered_items_def py_round1_def round_half_even_def get_default_def)

section \<open>Loading and saving the rating store\<close>

lemma map_of_setdefault:
  "map_of (setdefault k v d) k' = (case map_of d k' of Some x \<Rightarrow> Some x | None \<Rightarrow> if k' = k then Some v else None)"
  by (auto simp: setdefault_def map_add_def split: option.splits)

lemma setdefault_present: "map_of d k = Some x \<Longrightarrow> setdefault k v d = d"
  by (simp add: setdefault_def)

lemma map_of_fold_setdefault:
  "map_of (fold (\<lambda>m. setdefault m c) models d) k
     = (case map_of d k of Some x \<Rightarrow> Some x | None \<Rightarrow> if k \<in> set models then Some c else None)"
  by (induction models arbitrary: d) (auto simp: map_of_setdefault split: option.splits)

lemma fold_setdefault_present:
  "\<forall>m\<in>set models. map_of d m \<noteq> None \<Longrightarrow> fold (\<lambda>m. setdefault m c) models d = d"
  by (induction models) (auto simp: setdefault_present)

lemma backfill_split:
  "backfill models (e, v) = (fold (\<lambda>m. setdefault m 1500) models e, fold (\<lambda>m. setdefault m 0) models v)"
  unfolding backfill_def by (induction models arbitrary: e v) auto

lemma typed_items_floats: "typed_items as_float (map (\<lambda>(k, v). (k, JFloat v)) d) = Some d"
  by (induction d) auto

lemma typed_items_ints: "typed_items as_int (map (\<lambda>(k, v). (k, JInt v)) d) = Some d"
  by (induction d) auto

lemma load_state_wrapped:
  assumes "map_of kvs ''elos'' = Some ej"
  shows "load_state models (Some (JDict kvs)) =
     (case typed_dict as_float ej of
        Inl e \<Rightarrow> Inl e
      | Inr elos0 \<Rightarrow>
          (case typed_dict as_int (get_default kvs ''votes'' (JDict [])) of
             Inl e \<Rightarrow> Inl e
           | Inr votes0 \<Rightarrow>
               (case py_int (get_default kvs ''total_votes'' (JInt 0)) of
                  Inl e \<Rightarrow> Inl e
                | Inr tv \<Rightarrow>
                    Inr \<lparr>elos = fold (\<lambda>m. setdefault m 1500) models elos0,
                         votes = fold (\<lambda>m. setdefault m 0) models votes0, total_votes = tv\<rparr>)))"
  using assms by (simp add: load_state_def get_default_def backfill_split split: sum.splits)

lemma load_state_bare:
  assumes "map_of kvs ''elos'' = None"
  shows "load_state models (Some (JDict kvs)) =
     (case typed_items as_float kvs of
        None \<Rightarrow> Inl TypeError
      | Some elos0 \<Rightarrow>
          Inr \<lparr>elos = fold (\<lambda>m. setdefault m 1500) models elos0,
               votes = fold (\<lambda>m. setdefault m 0) models [], total_votes = 0\<rparr>)"
  using assms by (simp add: load_state_def backfill_split split: option.splits)

lemma load_state_absent:
  "load_state models None =
     Inr \<lparr>elos = fold (\<lambda>m. setdefault m 1500) models [],
          votes = fold (\<lambda>m. setdefault m 0) models [], total_votes = 0\<rparr>"
  by (simp add: load_state_def backfill_split)

lemma load_state_cases:
  assumes "load_state models file = Inr state"
  obtains elos0 votes0 where
    "elos state = fold (\<lambda>m. setdefault m 1500) models elos0"
    "votes state = fold (\<lambda>m. setdefault m 0) models votes0"
    "load_state ms file = Inr \<lparr>elos = fold (\<lambda>m. setdefault m 1500) ms elos0,
          votes = fold (\<lambda>m. setdefault m 0) ms votes0, total_votes = total_votes state\<rparr>"
proof (cases "file")
  case None
  with assms load_state_absent [of models] load_state_absent [of ms] that show ?thesis by auto
next
  case (Some doc)
  show ?thesis
  proof (cases doc)
    case (JDict kvs)
    show ?thesis
    proof (cases "map_of kvs ''elos''")
      case None
      with assms Some JDict load_state_bare [of kvs models] load_state_bare [of kvs ms] that
      show ?thesis by (auto split: option.splits)
    next
      case (Some ej)
      with assms \<open>file = Some doc\<close> JDict load_state_wrapped [of kvs ej models]
        load_state_wrapped [of kvs ej ms] that
      show ?thesis by (auto split: sum.splits)
    qed
  next
    case (JInt i)
    with assms Some show ?thesis by (simp add: load_state_def)
  next
    case (JFloat r)
    with assms Some show ?thesis by (simp add: load_state_def)
  qed
qed

lemma load_state_has_roster:
  assumes "load_state models file = Inr state" and "m \<in> set models"
  shows "map_of (elos state) m \<noteq> None \<and> map_of (votes state) m \<noteq> None"
proof -
  from assms(1) obtain elos0 votes0 where
    "elos state = fold (\<lambda>m. setdefault m 1500) models elos0"
    "votes state = fold (\<lambda>m. setdefault m 0) models votes0"
    by (rule load_state_cases)
  with assms(2) show ?thesis by (simp add: map_of_fold_setdefault split: option.splits)
qed

lemma load_save_state:
  assumes "\<forall>m\<in>set models. map_of (elos state) m \<noteq> None \<and> map_of (votes state) m \<noteq> None"
  shows "load_state models (Some (save_state state)) = Inr state"
proof -
  have e: "fold (\<lambda>m. setdefault m 1500) models (elos state) = elos state"
    using assms by (intro fold_setdefault_present) simp
  have v: "fold (\<lambda>m. setdefault m 0) models (votes state) = votes state"
    using assms by (intro fold_setdefault_present) simp
  show ?thesis
    unfolding save_state_def
    by (subst load_state_wrapped [where ej = "JDict (map (\<lambda>(k, v). (k, JFloat v)) (elos state))"])
       (simp_all add: get_default_def typed_items_floats typed_items_ints e v)
qed


text \<open>
  Claim C5. A document without the key \<open>elos\<close> whose values are all numbers (the
  legacy format) loads: the ratings are those of the document, every roster
  model the document lacks has rating 1500, the votes are 0 for exactly the
  roster models, and \<open>total_votes\<close> is 0; with an empty roster the loaded ratings
  are the document itself. Every load that returns a state returns one with a
  rating and a vote count for every roster model: it is the document as loaded
  with an empty roster, with 1500 and 0 filled in for the roster models the
  document lacks.
\<close>

theorem load_state_legacy_backfill:
  "(map_of doc ''elos'' = None \<and> typed_items as_float doc = Some ratings \<longrightarrow>
      (\<exists>state. load_state models (Some (JDict doc)) = Inr state
         \<and> (\<forall>k. map_of (elos state) k =
                (case map_of ratings k of Some r \<Rightarrow> Some r
                 | None \<Rightarrow> if k \<in> set models then Some 1500 else None))
         \<and> (\<forall>k. map_of (votes state) k = (if k \<in> set models then Some 0 else None))
         \<and> total_votes state = 0)
      \<and> load_state [] (Some (JDict doc)) = Inr \<lparr>elos = ratings, votes = [], total_votes = 0\<rparr>)
   \<and> (load_state models file = Inr state \<longrightarrow>
        (\<forall>m\<in>set models. map_of (elos state) m \<noteq> None \<and> map_of (votes state) m \<noteq> None)
      \<and> (\<exists>raw. load_state [] file = Inr raw \<and> total_votes state = total_votes raw
          \<and> (\<forall>k. map_of (elos state) k =
                 (case map_of (elos raw) k of Some r \<Rightarrow> Some r
                  | None \<Rightarrow> if k \<in> set models then Some 1500 else None))
          \<and> (\<forall>k. map_of (votes state) k =
                 (case map_of (votes raw) k of Some c \<Rightarrow> Some c
                  | None \<Rightarrow> if k \<in> set models then Some 0 else None))))"
proof (intro conjI impI)
  assume legacy: "map_of doc ''elos'' = None \<and> typed_items as_float doc = Some ratings"
  then show "\<exists>state. load_state models (Some (JDict doc)) = Inr state
         \<and> (\<forall>k. map_of (elos state) k =
                (case map_of ratings k of Some r \<Rightarrow> Some r
                 | None \<Rightarrow> if k \<in> set models then Some 1500 else None))
         \<and> (\<forall>k. map_of (votes state) k = (if k \<in> set models then Some 0 else None))
         \<and> total_votes state = 0"
    by (simp add: load_state_bare map_of_fold_setdefault)
  from legacy show "load_state [] (Some (JDict doc)) = Inr \<lparr>elos = ratings, votes = [], total_votes = 0\<rparr>"
    by (simp add: load_state_bare)
next
  assume loaded: "load_state models file = Inr state"
  then show "\<forall>m\<in>set models. map_of (elos state) m \<noteq> None \<and> map_of (votes state) m \<noteq> None"
    using load_state_has_roster by blast
  from loaded obtain elos0 votes0 where
    e: "elos state = fold (\<lambda>m. setdefault m 1500) models elos0" and
    v: "votes state = fold (\<lambda>m. setdefault m 0) models votes0" and
    raw: "load_state [] file = Inr \<lparr>elos = fold (\<lambda>m. setdefault m 1500) [] elos0,
          votes = fold (\<lambda>m. setdefault m 0) [] votes0, total_votes = total_votes state\<rparr>"
    by (rule load_state_cases)
  show "\<exists>raw. load_state [] file = Inr raw \<and> total_votes state = total_votes raw
          \<and> (\<forall>k. map_of (elos state) k =
                 (case map_of (elos raw) k of Some r \<Rightarrow> Some r
                  | None \<Rightarrow> if k \<in> set models then Some 1500 else None))
          \<and> (\<forall>k. map_of (votes state) k =
                 (case map_of (votes raw) k of Some c \<Rightarrow> Some c
                  | None \<Rightarrow> if k \<in> set models then Some 0 else None))"
    using raw by (simp add: e v map_of_fold_setdefault)
qed

theorem load_state_legacy_backfill_witness:
  "map_of [(''a'', JFloat 1510.5), (''b'', JInt 1490)] ''elos'' = None
   \<and> typed_items as_float [(''a'', JFloat 1510.5), (''b'', JInt 1490)] = Some [(''a'', 1510.5), (''b'', 1490)]
   \<and> load_state [''a'', ''c''] None
       = Inr \<lparr>elos = [(''a'', 1500), (''c'', 1500)], votes = [(''a'', 0), (''c'', 0)], total_votes = 0\<rparr>
   \<and> (\<exists>state. load_state [''a'', ''c''] (Some (JDict [(''a'', JFloat 1510.5), (''b'', JInt 1490)])) = Inr state
         \<and> map_of (elos state) ''a'' = Some 1510.5
         \<and> map_of (elos state) ''b'' = Some 1490
         \<and> map_of (elos state) ''c'' = Some 1500
         \<and> map_of (votes state) ''a'' = Some 0
         \<and> map_of (votes state) ''b'' = None
         \<and> map_of (votes state) ''c'' = Some 0
         \<and> total_votes state = 0)
   \<and> map_of [(''a'', 1500::real), (''c'', 1500)] ''c'' \<noteq> None"
proof -
  have h: "map_of [(''a'', JFloat 1510.5), (''b'', JInt 1490)] ''elos'' = None
     \<and> typed_items as_float [(''a'', JFloat 1510.5), (''b'', JInt 1490)] = Some [(''a'', 1510.5), (''b'', 1490)]"
    by simp
  have l: "load_state [''a'', ''c''] None
       = Inr \<lparr>elos = [(''a'', 1500), (''c'', 1500)], votes = [(''a'', 0), (''c'', 0)], total_votes = 0\<rparr>"
    by (simp add: load_state_def backfill_def setdefault_def)
  show ?thesis
    using h l load_state_legacy_backfill [of "[(''a'', JFloat 1510.5), (''b'', JInt 1490)]"
        "[(''a'', 1510.5), (''b'', 1490)]" "[''a'', ''c'']" None
        "\<lparr>elos = [(''a'', 1500), (''c'', 1500)], votes = [(''a'', 0), (''c'', 0)], total_votes = 0\<rparr>"]
    by auto
qed

text \<open>
  Claim C8. A state that has a rating and a vote count for every roster model
  is returned unchanged by loading the document that saving it writes.
\<close>

theorem save_load_roundtrip:
  assumes "\<forall>m\<in>set models. map_of (elos state) m \<noteq> None \<and> map_of (votes state) m \<noteq> None"
  shows "load_state models (Some (save_state state)) = Inr state"
  using assms by (rule load_save_state)

theorem save_load_roundtrip_witness:
  "load_state [''a'', ''b'']
     (Some (save_state \<lparr>elos = [(''a'', 1516), (''b'', 1484), (''z'', 1200.5)],
                        votes = [(''a'', 1), (''b'', 0)], total_votes = 1\<rparr>))
   = Inr \<lparr>elos = [(''a'', 1516), (''b'', 1484), (''z'', 1200.5)],
          votes = [(''a'', 1), (''b'', 0)], total_votes = 1\<rparr>"
  using save_load_roundtrip [of "[''a'', ''b'']"
      "\<lparr>elos = [(''a'', 1516), (''b'', 1484), (''z'', 1200.5)],
        votes = [(''a'', 1), (''b'', 0)], total_votes = 1\<rparr>"]
  by simp

section \<open>Category index\<close>

lemma set_update_subset: "set (AList.update k v al) \<subseteq> insert (k, v) (set al)"
  by (induction al) auto

lemma index_append_cases:
  assumes "(c', ms') \<in> set (index_append c m index)"
  shows "(c', ms') \<in> set index
     \<or> (c' = c \<and> (ms' = [m] \<or> (\<exists>ms. (c, ms) \<in> set index \<and> ms' = ms @ [m])))"
proof (cases "map_of index c")
  case None
  with assms show ?thesis by (auto simp: index_append_def)
next
  case (Some ms)
  then have "(c, ms) \<in> set index" by (rule map_of_SomeD)
  moreover from assms Some have "(c', ms') \<in> insert (c, ms @ [m]) (set index)"
    using set_update_subset [of c "ms @ [m]" index] by (auto simp: index_append_def)
  ultimately show ?thesis by auto
qed

lemma index_append_invariant:
  assumes old: "\<And>c' ms'. (c', ms') \<in> set index \<Longrightarrow> R c' ms'"
    and keep: "\<And>c' ms'. R c' ms' \<Longrightarrow> R' c' ms'"
    and ext: "\<And>ms. (c, ms) \<in> set index \<Longrightarrow> R c ms \<Longrightarrow> R' c (ms @ [m])"
    and new: "R' c [m]"
    and mem: "(c', ms') \<in> set (index_append c m index)"
  shows "R' c' ms'"
  using index_append_cases [OF mem] old keep ext new by blast

text \<open>A property of every (category, model) pair the loops add holds of the whole index.\<close>

lemma inner_fold_members:
  assumes "\<And>c ms. (c, ms) \<in> set index \<Longrightarrow> \<forall>x\<in>set ms. Q c x"
    and "\<And>c jokes. (c, jokes) \<in> set its \<Longrightarrow> jokes \<noteq> [] \<Longrightarrow> Q c m"
    and "(c', ms') \<in> set (fold (\<lambda>(category, jokes) index.
            if jokes \<noteq> [] then index_append category m index else index) its index)"
  shows "\<forall>x\<in>set ms'. Q c' x"
  using assms
proof (induction its arbitrary: index)
  case Nil
  then show ?case by simp
next
  case (Cons it its)
  obtain c jokes where it: "it = (c, jokes)" by (cases it)
  show ?case
  proof (cases "jokes = []")
    case True
    with Cons.prems it show ?thesis
      by (intro Cons.IH [of index]) auto
  next
    case False
    have hj: "Q c m" using Cons.prems(2) [of c jokes] it False by simp
    have step: "\<forall>x\<in>set ms. Q k x"
      if "(k, ms) \<in> set (index_append c m index)" for k ms
      by (rule index_append_invariant [where R = "\<lambda>c ms. \<forall>x\<in>set ms. Q c x", OF _ _ _ _ that])
         (use Cons.prems(1) hj in auto)
    show ?thesis
      using Cons.prems(2,3) it False
      by (intro Cons.IH [of "index_append c m index"] step) auto
  qed
qed

lemma outer_fold_members:
  assumes "\<And>c ms. (c, ms) \<in> set index \<Longrightarrow> \<forall>x\<in>set ms. Q c x"
    and "\<And>m c jokes. m \<in> set models \<Longrightarrow> (c, jokes) \<in> set (get_default (JOKES cfg) m [])
           \<Longrightarrow> jokes \<noteq> [] \<Longrightarrow> Q c m"
    and "(c', ms') \<in> set (fold (index_model cfg) models index)"
  shows "\<forall>x\<in>set ms'. Q c' x"
  using assms
proof (induction models arbitrary: index)
  case Nil
  then show ?case by simp
next
  case (Cons m models)
  have step: "\<forall>x\<in>set ms. Q k x"
    if "(k, ms) \<in> set (index_model cfg m index)" for k ms
    using that unfolding index_model_def
    by (rule inner_fold_members [rotated 2]) (use Cons.prems(1,2) in auto)
  show ?case
    using Cons.prems(2,3) by (intro Cons.IH [of "index_model cfg m index"] step) auto
qed


lemma category_index_roster:
  assumes "(c, ms) \<in> set (CATEGORY_INDEX cfg)"
  shows "2 \<le> length ms \<and> set ms \<subseteq> set (MODELS cfg)"
proof -
  from assms have len: "2 \<le> length ms"
    and mem: "(c, ms) \<in> set (fold (index_model cfg) (MODELS cfg) [])"
    by (auto simp: CATEGORY_INDEX_def build_category_index_def)
  from outer_fold_members [OF _ _ mem, of "\<lambda>c x. x \<in> set (MODELS cfg)"] len show ?thesis by auto
qed






section \<open>Matchmaker\<close>



lemma random_sample2_positions:
  assumes "random_sample2 xs r1 r2 = Inr (a, b)"
  shows "\<exists>i j. i < length xs \<and> j < length xs \<and> i \<noteq> j \<and> a = xs ! i \<and> b = xs ! j"
proof -
  from assms have len: "2 \<le> length xs" by (auto simp: random_sample2_def split: if_splits)
  define i where "i = r1 mod length xs"
  define j0 where "j0 = r2 mod (length xs - 1)"
  define j where "j = (if j0 < i then j0 else Suc j0)"
  from len have "0 < length xs" "0 < length xs - 1" by auto
  then have "i < length xs" "j0 < length xs - 1" unfolding i_def j0_def by simp_all
  then have "j < length xs" "i \<noteq> j" by (auto simp: j_def)
  moreover from assms len have "a = xs ! i" "b = xs ! j"
    by (auto simp: random_sample2_def Let_def i_def j0_def j_def)
  ultimately show ?thesis using \<open>i < length xs\<close> by blast
qed

lemma random_sample2_members:
  assumes "random_sample2 xs r1 r2 = Inr (a, b)"
  shows "a \<in> set xs \<and> b \<in> set xs \<and> (distinct xs \<longrightarrow> a \<noteq> b)"
  using random_sample2_positions [OF assms] by (auto simp: nth_eq_iff_index_eq)


lemma lookup_Inr: "lookup d k = Inr v \<Longrightarrow> map_of d k = Some v"
  by (auto simp: lookup_def split: option.splits)




lemma select_battle_Inr:
  assumes "select_battle cfg rn s = (s', Inr c)"
  obtains state cat models ma mb ca cb where
    "read_state cfg s = Inr state"
    "random_choice (map fst (CATEGORY_INDEX cfg)) (pick_category rn) = Inr cat"
    "lookup (CATEGORY_INDEX cfg) cat = Inr models"
    "random_sample2 models (pick_first rn) (pick_second rn) = Inr (ma, mb)"
    "make_contestant cfg
       (map_of (rev (map (\<lambda>e. (entry_model e, entry_rank e))
          (build_leaderboard (elos state) (votes state))))) ma cat (pick_joke_a rn) = Inr ca"
    "make_contestant cfg
       (map_of (rev (map (\<lambda>e. (entry_model e, entry_rank e))
          (build_leaderboard (elos state) (votes state))))) mb cat (pick_joke_b rn) = Inr cb"
    "s' = s\<lparr>ACTIVE_BATTLES := (ACTIVE_BATTLES s)(uuid4 rn \<mapsto> \<lparr>model_a = ma, model_b = mb\<rparr>)\<rparr>"
    "c = \<lparr>cmp_battle_id = uuid4 rn, cmp_category = cat, cmp_contestants = [ca, cb]\<rparr>"
  using assms unfolding select_battle_def Let_def
  by (auto split: if_splits sum.splits prod.splits)

lemma select_battle_Inl:
  assumes "select_battle cfg rn s = (s', Inl e)"
  shows "s' = s"
  using assms unfolding select_battle_def Let_def
  by (auto split: if_splits sum.splits prod.splits)

lemma load_state_error: "load_state models file = Inl e \<Longrightarrow> e = TypeError"
  unfolding load_state_def Let_def
  by (auto split: option.splits json.splits sum.splits prod.splits if_splits
      elim!: typed_dict.elims py_int.elims)







lemmas eval_defs = example_config_def example_rnd_def empty_config_def duplicate_roster_config_def
  CATEGORY_INDEX_def build_category_index_def index_model_def index_append_def get_default_def
  read_state_def load_state_def backfill_def setdefault_def build_leaderboard_def ordered_items_def
  py_round1_def round_half_even_def random_choice_def random_sample2_def lookup_def
  make_contestant_def startup_def select_battle_def jokes_wellformed_def pool_def





section \<open>Battle ledger\<close>

lemma update_state_battles:
  "ACTIVE_BATTLES (fst (update_state cfg mutator s)) = ACTIVE_BATTLES s"
  by (simp add: update_state_def split: sum.splits prod.splits)

lemma update_state_Inl:
  "update_state cfg mutator s = (s', Inl e) \<Longrightarrow> s' = s"
  by (auto simp: update_state_def split: sum.splits prod.splits)

lemma update_state_Inr:
  assumes "update_state cfg mutator s = (s', Inr (state', res))"
  obtains state where "load_state (MODELS cfg) (ELO_FILE s) = Inr state"
    "mutator state = Inr (state', res)" "s' = s\<lparr>ELO_FILE := Some (save_state state')\<rparr>"
  using assms by (auto simp: update_state_def split: sum.splits prod.splits)

lemma submit_result_unknown:
  "ACTIVE_BATTLES s t = None \<Longrightarrow> submit_result cfg t w s = (s, Inl UnknownToken)"
  by (simp add: submit_result_def)

lemma submit_result_known:
  assumes "ACTIVE_BATTLES s t = Some b"
  shows "submit_result cfg t w s =
     (let s1 = s\<lparr>ACTIVE_BATTLES := (ACTIVE_BATTLES s)(t := None)\<rparr>
      in if w \<noteq> model_a b \<and> w \<noteq> model_b b then (s1, Inl InvalidWinner)
         else if model_a b = model_b b then (s1, Inl PopFromEmptySet)
         else (case update_state cfg
                 (\<lambda>elo_state. record_battle_result elo_state w
                    (if w = model_a b then model_b b else model_a b)) s1 of
                 (s2, Inl e) \<Rightarrow> (s2, Inl e)
               | (s2, Inr (state, leaderboard)) \<Rightarrow> (s2, Inr (leaderboard, total_votes state))))"
  using assms by (simp add: submit_result_def Let_def)

lemma respond_fst:
  "fst (case p of (s2, Inl e) \<Rightarrow> (s2, Inl e)
        | (s2, Inr (state, leaderboard)) \<Rightarrow> (s2, Inr (leaderboard, total_votes state))) = fst p"
  by (cases p) (auto split: sum.splits)

lemma submit_result_battles:
  "ACTIVE_BATTLES (fst (submit_result cfg t w s)) = (ACTIVE_BATTLES s)(t := None)"
proof (cases "ACTIVE_BATTLES s t")
  case None
  then have "(ACTIVE_BATTLES s)(t := None) = ACTIVE_BATTLES s" by auto
  with None show ?thesis by (simp add: submit_result_unknown)
next
  case (Some b)
  show ?thesis
    by (simp add: submit_result_known [OF Some] Let_def respond_fst update_state_battles)
qed

lemma submit_result_invalid:
  assumes "ACTIVE_BATTLES s t = Some b" and "w \<noteq> model_a b" and "w \<noteq> model_b b"
  shows "submit_result cfg t w s
     = (s\<lparr>ACTIVE_BATTLES := (ACTIVE_BATTLES s)(t := None)\<rparr>, Inl InvalidWinner)"
  using assms by (simp add: submit_result_known Let_def)

lemma submit_result_Inl:
  assumes "submit_result cfg t w s = (s', Inl e)"
  shows "ELO_FILE s' = ELO_FILE s"
proof (cases "ACTIVE_BATTLES s t")
  case None
  with assms show ?thesis by (simp add: submit_result_unknown)
next
  case (Some b)
  from assms show ?thesis
    unfolding submit_result_known [OF Some] Let_def
    by (auto split: if_splits sum.splits prod.splits dest!: update_state_Inl)
qed

lemma submit_result_Inr:
  assumes "submit_result cfg t w s = (s', Inr (lb, n))"
  obtains b l state state' where
    "ACTIVE_BATTLES s t = Some b"
    "model_a b \<noteq> model_b b"
    "w = model_a b \<and> l = model_b b \<or> w = model_b b \<and> l = model_a b"
    "load_state (MODELS cfg) (ELO_FILE s) = Inr state"
    "record_battle_result state w l = Inr (state', lb)"
    "n = total_votes state'"
    "s' = s\<lparr>ACTIVE_BATTLES := (ACTIVE_BATTLES s)(t := None), ELO_FILE := Some (save_state state')\<rparr>"
proof (cases "ACTIVE_BATTLES s t")
  case None
  with assms show ?thesis by (simp add: submit_result_unknown)
next
  case (Some b)
  define l where "l = (if w = model_a b then model_b b else model_a b)"
  define s1 where "s1 = s\<lparr>ACTIVE_BATTLES := (ACTIVE_BATTLES s)(t := None)\<rparr>"
  from assms have w: "w = model_a b \<or> w = model_b b" and ne: "model_a b \<noteq> model_b b"
    unfolding submit_result_known [OF Some] Let_def by (auto split: if_splits)
  with assms obtain state' where
    u: "update_state cfg (\<lambda>elo_state. record_battle_result elo_state w l) s1 = (s', Inr (state', lb))"
    and n: "n = total_votes state'"
    unfolding submit_result_known [OF Some] Let_def l_def s1_def
    by (auto split: if_splits sum.splits prod.splits)
  from u obtain state where
    "load_state (MODELS cfg) (ELO_FILE s1) = Inr state"
    "record_battle_result state w l = Inr (state', lb)"
    "s' = s1\<lparr>ELO_FILE := Some (save_state state')\<rparr>"
    by (rule update_state_Inr)
  with Some ne w n that [of b l state state'] show ?thesis
    by (auto simp: l_def s1_def)
qed

lemma select_battle_state:
  assumes "select_battle cfg rn s = (s', out)"
  shows "ELO_FILE s' = ELO_FILE s
     \<and> (ACTIVE_BATTLES s' = ACTIVE_BATTLES s
        \<or> (\<exists>ma mb. ACTIVE_BATTLES s' = (ACTIVE_BATTLES s)(uuid4 rn \<mapsto> \<lparr>model_a = ma, model_b = mb\<rparr>)
              \<and> ma \<in> set (MODELS cfg) \<and> mb \<in> set (MODELS cfg)))"
proof (cases out)
  case (Inl e)
  with assms have "s' = s" by (auto dest: select_battle_Inl)
  then show ?thesis by simp
next
  case (Inr c)
  with assms have "select_battle cfg rn s = (s', Inr c)" by simp
  then obtain state cat models ma mb ca cb where
    "read_state cfg s = Inr state"
    "random_choice (map fst (CATEGORY_INDEX cfg)) (pick_category rn) = Inr cat"
    and lk: "lookup (CATEGORY_INDEX cfg) cat = Inr models"
    and sm: "random_sample2 models (pick_first rn) (pick_second rn) = Inr (ma, mb)"
    and "make_contestant cfg
       (map_of (rev (map (\<lambda>e. (entry_model e, entry_rank e))
          (build_leaderboard (elos state) (votes state))))) ma cat (pick_joke_a rn) = Inr ca"
    "make_contestant cfg
       (map_of (rev (map (\<lambda>e. (entry_model e, entry_rank e))
          (build_leaderboard (elos state) (votes state))))) mb cat (pick_joke_b rn) = Inr cb"
    and s': "s' = s\<lparr>ACTIVE_BATTLES := (ACTIVE_BATTLES s)(uuid4 rn \<mapsto> \<lparr>model_a = ma, model_b = mb\<rparr>)\<rparr>"
    and "c = \<lparr>cmp_battle_id = uuid4 rn, cmp_category = cat, cmp_contestants = [ca, cb]\<rparr>"
    by (rule select_battle_Inr)
  from lk have "(cat, models) \<in> set (CATEGORY_INDEX cfg)" by (auto dest: lookup_Inr map_of_SomeD)
  then have "set models \<subseteq> set (MODELS cfg)" by (simp add: category_index_roster)
  with random_sample2_members [OF sm] have "ma \<in> set (MODELS cfg)" "mb \<in> set (MODELS cfg)" by auto
  with s' show ?thesis by auto
qed

lemma api_battle_result_cases:
  "api_battle_result cfg bo wo s = (s, Inl MissingField)
   \<or> (\<exists>t w. api_battle_result cfg bo wo s = submit_result cfg t w s)"
  by (auto simp: api_battle_result_def split: option.splits)

lemma handle_state:
  assumes "handle cfg rq s = (s', out)"
  shows "(ELO_FILE s' = ELO_FILE s \<and> \<not> is_result out
          \<and> (ACTIVE_BATTLES s' = ACTIVE_BATTLES s
             \<or> (\<exists>rn ma mb. rq = GetBattle rn
                  \<and> ACTIVE_BATTLES s' = (ACTIVE_BATTLES s)(uuid4 rn \<mapsto> \<lparr>model_a = ma, model_b = mb\<rparr>)
                  \<and> ma \<in> set (MODELS cfg) \<and> mb \<in> set (MODELS cfg))))
     \<or> (\<exists>t w r. submit_result cfg t w s = (s', r)
           \<and> (case r of Inl e \<Rightarrow> out = Inl e | Inr (lb, n) \<Rightarrow> out = Inr (Result lb n)))"
proof (cases rq)
  case (GetBattle rn)
  obtain s1 r where sb: "select_battle cfg rn s = (s1, r)" by (cases "select_battle cfg rn s")
  with assms GetBattle have "s' = s1" "\<not> is_result out" by (auto split: sum.splits)
  with select_battle_state [OF sb] GetBattle show ?thesis by auto
next
  case (PostBattleResult bo wo)
  from api_battle_result_cases [of cfg bo wo s] show ?thesis
  proof
    assume "api_battle_result cfg bo wo s = (s, Inl MissingField)"
    with assms PostBattleResult show ?thesis by auto
  next
    assume "\<exists>t w. api_battle_result cfg bo wo s = submit_result cfg t w s"
    then obtain t w where a: "api_battle_result cfg bo wo s = submit_result cfg t w s" by blast
    obtain s1 r where sr: "submit_result cfg t w s = (s1, r)" by (cases "submit_result cfg t w s")
    with assms PostBattleResult a have "s' = s1"
      and "case r of Inl e \<Rightarrow> out = Inl e | Inr (lb, n) \<Rightarrow> out = Inr (Result lb n)"
      by (auto split: sum.splits)
    with sr show ?thesis by blast
  qed
next
  case GetLeaderboard
  with assms show ?thesis by (auto split: sum.splits)
qed

lemma handle_token_absent:
  assumes "ACTIVE_BATTLES s t = None" and "\<not> issues t rq"
  shows "ACTIVE_BATTLES (fst (handle cfg rq s)) t = None"
proof -
  obtain s' out where h: "handle cfg rq s = (s', out)" by (cases "handle cfg rq s")
  from handle_state [OF h] have "ACTIVE_BATTLES s' t = None"
  proof (elim disjE conjE exE)
    assume "ACTIVE_BATTLES s' = ACTIVE_BATTLES s"
    with assms show ?thesis by simp
  next
    fix rn ma mb
    assume "rq = GetBattle rn"
      "ACTIVE_BATTLES s' = (ACTIVE_BATTLES s)(uuid4 rn \<mapsto> \<lparr>model_a = ma, model_b = mb\<rparr>)"
    with assms show ?thesis by auto
  next
    fix t' w r
    assume "submit_result cfg t' w s = (s', r)"
    then have "ACTIVE_BATTLES s' = (ACTIVE_BATTLES s)(t' := None)"
      using submit_result_battles [of cfg t' w s] by simp
    with assms show ?thesis by simp
  qed
  with h show ?thesis by simp
qed

lemma run_Cons:
  "run cfg (rq # reqs) s =
     (fst (run cfg reqs (fst (handle cfg rq s))),
      snd (handle cfg rq s) # snd (run cfg reqs (fst (handle cfg rq s))))"
  by (simp split: prod.splits)

lemma run_token_absent:
  assumes "ACTIVE_BATTLES s t = None" and "\<forall>rq\<in>set reqs. \<not> issues t rq"
  shows "ACTIVE_BATTLES (fst (run cfg reqs s)) t = None"
  using assms
proof (induction reqs arbitrary: s)
  case Nil
  then show ?case by simp
next
  case (Cons rq reqs)
  from Cons.prems have "ACTIVE_BATTLES (fst (handle cfg rq s)) t = None"
    by (intro handle_token_absent) auto
  with Cons.prems(2) have "ACTIVE_BATTLES (fst (run cfg reqs (fst (handle cfg rq s)))) t = None"
    by (intro Cons.IH) auto
  then show ?case by (simp only: run_Cons fst_conv)
qed

lemmas ledger_defs = submit_result_def update_state_def record_battle_result_def elo_update_def
  save_state_def api_battle_result_def api_leaderboard_def example_pending_def example_board_def
  example_voted_def

lemma example_pending_reached:
  "fst (select_battle example_config example_rnd (startup None)) = example_pending"
  by (simp add: eval_defs ledger_defs)

lemma example_submit:
  "submit_result example_config ''t1'' ''a'' example_pending =
     (\<lparr>ELO_FILE = Some (save_state example_voted), ACTIVE_BATTLES = Map.empty\<rparr>,
      Inr (example_board, 1))"
  by (simp add: eval_defs ledger_defs)

text \<open>
  Claim C4. For a pending battle under token \<open>t\<close> and a winner that is neither of
  its two models, \<open>submit_result\<close> answers \<open>InvalidWinner\<close>. The rating file, and
  with it every rating, every vote count and \<open>total_votes\<close> as the store reads
  them, is unchanged, and the ledger has lost exactly the token \<open>t\<close>: a further
  submission under \<open>t\<close> answers \<open>UnknownToken\<close>.
\<close>

theorem invalid_winner_consumes_token:
  assumes "ACTIVE_BATTLES s t = Some b" and "w \<noteq> model_a b" and "w \<noteq> model_b b"
  shows "\<exists>s'. submit_result cfg t w s = (s', Inl InvalidWinner)
     \<and> ELO_FILE s' = ELO_FILE s
     \<and> read_state cfg s' = read_state cfg s
     \<and> ACTIVE_BATTLES s' = (ACTIVE_BATTLES s)(t := None)
     \<and> submit_result cfg t w2 s' = (s', Inl UnknownToken)"
  using assms by (simp add: submit_result_invalid submit_result_unknown read_state_def)

theorem invalid_winner_consumes_token_witness:
  "ACTIVE_BATTLES example_pending ''t1'' = Some \<lparr>model_a = ''b'', model_b = ''a''\<rparr>
   \<and> submit_result example_config ''t1'' ''z'' example_pending = (startup None, Inl InvalidWinner)
   \<and> read_state example_config (startup None) = read_state example_config example_pending
   \<and> submit_result example_config ''t1'' ''a'' (startup None) = (startup None, Inl UnknownToken)"
proof -
  have p: "ACTIVE_BATTLES example_pending ''t1'' = Some \<lparr>model_a = ''b'', model_b = ''a''\<rparr>"
    by (simp add: example_pending_def)
  have s: "example_pending\<lparr>ACTIVE_BATTLES := (ACTIVE_BATTLES example_pending)(''t1'' := None)\<rparr>
      = startup None"
    by (simp add: example_pending_def startup_def)
  from invalid_winner_consumes_token [OF p, of "''z''" example_config "''a''"]
  obtain s' where
    1: "submit_result example_config ''t1'' ''z'' example_pending = (s', Inl InvalidWinner)" and
    2: "ELO_FILE s' = ELO_FILE example_pending" and
    3: "read_state example_config s' = read_state example_config example_pending" and
    4: "ACTIVE_BATTLES s' = (ACTIVE_BATTLES example_pending)(''t1'' := None)" and
    5: "submit_result example_config ''t1'' ''a'' s' = (s', Inl UnknownToken)"
    by auto
  from 2 4 have "s' = startup None"
    by (cases s') (simp add: example_pending_def startup_def)
  with p 1 3 5 show ?thesis by simp
qed

text \<open>
  Claim C1. After a successful \<open>submit_result\<close> for token \<open>t\<close>, and after any further
  requests among which no battle request draws \<open>t\<close> again from \<open>uuid.uuid4()\<close>,
  every \<open>submit_result\<close> for \<open>t\<close> answers \<open>UnknownToken\<close> and changes nothing.
\<close>

theorem token_consumed_once:
  assumes "submit_result cfg t w s = (s1, Inr r)" and "\<forall>rq\<in>set reqs. \<not> issues t rq"
  shows "submit_result cfg t w' (fst (run cfg reqs s1)) = (fst (run cfg reqs s1), Inl UnknownToken)"
proof -
  from assms(1) have "ACTIVE_BATTLES s1 t = None"
    using submit_result_battles [of cfg t w s] by simp
  then have "ACTIVE_BATTLES (fst (run cfg reqs s1)) t = None"
    using assms(2) by (rule run_token_absent)
  then show ?thesis by (rule submit_result_unknown)
qed

theorem token_consumed_once_witness:
  "submit_result example_config ''t1'' ''a'' example_pending =
     (\<lparr>ELO_FILE = Some (save_state example_voted), ACTIVE_BATTLES = Map.empty\<rparr>,
      Inr (example_board, 1))
   \<and> \<not> issues ''t1'' GetLeaderboard
   \<and> \<not> issues ''t1'' (GetBattle (example_rnd\<lparr>uuid4 := ''t2''\<rparr>))
   \<and> snd (submit_result example_config ''t1'' ''b''
        (fst (run example_config [GetLeaderboard, GetBattle (example_rnd\<lparr>uuid4 := ''t2''\<rparr>)]
           \<lparr>ELO_FILE = Some (save_state example_voted), ACTIVE_BATTLES = Map.empty\<rparr>)))
       = Inl UnknownToken"
proof -
  have f: "\<forall>rq\<in>set [GetLeaderboard, GetBattle (example_rnd\<lparr>uuid4 := ''t2''\<rparr>)]. \<not> issues ''t1'' rq"
    by simp
  from token_consumed_once [OF example_submit f, of "''b''"] example_submit show ?thesis
    by simp
qed

section \<open>Recording a result\<close>

lemma elo_update_Inr:
  assumes "elo_update e w l k = Inr e'"
  obtains rw rl where "map_of e w = Some rw" "map_of e l = Some rl"
    "e' = AList.update l (rl + k * (0 - 1 / (1 + 10 powr ((rw - rl) / 400))))
            (AList.update w (rw + k * (1 - 1 / (1 + 10 powr ((rl - rw) / 400)))) e)"
  using assms by (auto simp: elo_update_def Let_def split: option.splits)

lemma elo_update_total:
  assumes "map_of e w \<noteq> None" and "map_of e l \<noteq> None"
  shows "\<exists>e'. elo_update e w l k = Inr e'"
  using assms by (auto simp: elo_update_def Let_def)

lemma elo_update_frame:
  assumes "elo_update e w l k = Inr e'"
  shows "(m \<noteq> w \<and> m \<noteq> l \<longrightarrow> map_of e' m = map_of e m) \<and> (map_of e m \<noteq> None \<longrightarrow> map_of e' m \<noteq> None)"
  using assms by (elim elo_update_Inr) (simp add: update_conv')

lemma record_battle_result_Inr:
  assumes "record_battle_result state w l = Inr (state', lb)"
  shows "elo_update (elos state) w l 32 = Inr (elos state')
     \<and> votes state' = AList.update w (get_default (votes state) w 0 + 1) (votes state)
     \<and> total_votes state' = total_votes state + 1
     \<and> lb = build_leaderboard (elos state') (votes state')"
  using assms by (auto simp: record_battle_result_def Let_def split: sum.splits)

lemma record_battle_result_Inl:
  assumes "record_battle_result state w l = Inl e"
  shows "elo_update (elos state) w l 32 = Inl e"
  using assms by (auto simp: record_battle_result_def Let_def split: sum.splits)

lemma submit_result_success:
  assumes "submit_result cfg t w s = (s', Inr (lb, n))"
  shows "\<exists>b l state state'. ACTIVE_BATTLES s t = Some b
         \<and> (w = model_a b \<and> l = model_b b \<or> w = model_b b \<and> l = model_a b) \<and> w \<noteq> l
         \<and> read_state cfg s = Inr state \<and> read_state cfg s' = Inr state'
         \<and> elo_update (elos state) w l 32 = Inr (elos state')
         \<and> (\<forall>m. m \<noteq> w \<and> m \<noteq> l \<longrightarrow> map_of (elos state') m = map_of (elos state) m)
         \<and> map_of (votes state') w = Some (get_default (votes state) w 0 + 1)
         \<and> (\<forall>m. m \<noteq> w \<longrightarrow> map_of (votes state') m = map_of (votes state) m)
         \<and> total_votes state' = total_votes state + 1
         \<and> n = total_votes state' \<and> lb = build_leaderboard (elos state') (votes state')"
proof -
  from assms obtain b l state state' where
    b: "ACTIVE_BATTLES s t = Some b" and ne: "model_a b \<noteq> model_b b"
    and wl: "w = model_a b \<and> l = model_b b \<or> w = model_b b \<and> l = model_a b"
    and ld: "load_state (MODELS cfg) (ELO_FILE s) = Inr state"
    and rb: "record_battle_result state w l = Inr (state', lb)"
    and n: "n = total_votes state'"
    and s': "s' = s\<lparr>ACTIVE_BATTLES := (ACTIVE_BATTLES s)(t := None), ELO_FILE := Some (save_state state')\<rparr>"
    by (rule submit_result_Inr)
  note r = record_battle_result_Inr [OF rb]
  from r have eu: "elo_update (elos state) w l 32 = Inr (elos state')" by simp
  have roster: "\<forall>m\<in>set (MODELS cfg). map_of (elos state') m \<noteq> None \<and> map_of (votes state') m \<noteq> None"
  proof
    fix m assume "m \<in> set (MODELS cfg)"
    with ld have "map_of (elos state) m \<noteq> None \<and> map_of (votes state) m \<noteq> None"
      by (rule load_state_has_roster)
    with elo_update_frame [OF eu, of m] r
    show "map_of (elos state') m \<noteq> None \<and> map_of (votes state') m \<noteq> None"
      by (simp add: update_conv')
  qed
  then have "load_state (MODELS cfg) (Some (save_state state')) = Inr state'"
    by (rule load_save_state)
  with s' have rd': "read_state cfg s' = Inr state'" by (simp add: read_state_def)
  from ld have rd: "read_state cfg s = Inr state" by (simp add: read_state_def)
  from wl ne have "w \<noteq> l" by auto
  with b wl rd rd' eu elo_update_frame [OF eu] r n show ?thesis
    by (auto simp: update_conv')
qed

lemma handle_total_votes:
  assumes rd: "read_state cfg s = Inr st" and h: "handle cfg rq s = (s', out)"
  shows "\<exists>st'. read_state cfg s' = Inr st'
     \<and> total_votes st' = total_votes st + (if is_result out then 1 else 0)"
proof -
  have "(ELO_FILE s' = ELO_FILE s \<and> \<not> is_result out)
     \<or> (\<exists>t w r. submit_result cfg t w s = (s', r)
           \<and> (case r of Inl e \<Rightarrow> out = Inl e | Inr (lb, n) \<Rightarrow> out = Inr (Result lb n)))"
    using handle_state [OF h] by blast
  then show ?thesis
  proof (elim disjE conjE exE)
  assume "ELO_FILE s' = ELO_FILE s" "\<not> is_result out"
  with rd show ?thesis by (simp add: read_state_def)
next
  fix t w r
  assume sr: "submit_result cfg t w s = (s', r)"
    and out: "case r of Inl e \<Rightarrow> out = Inl e | Inr (lb, n) \<Rightarrow> out = Inr (Result lb n)"
  show ?thesis
  proof (cases r)
    case (Inl e)
    with sr have "ELO_FILE s' = ELO_FILE s" by (auto dest: submit_result_Inl)
    with rd out Inl show ?thesis by (simp add: read_state_def)
  next
    case (Inr p)
    obtain lb n where p: "p = (lb, n)" by (cases p)
    with sr Inr have "submit_result cfg t w s = (s', Inr (lb, n))" by simp
    from submit_result_success [OF this] rd out Inr p show ?thesis by auto
  qed
  qed
qed

lemma run_total_votes:
  assumes "read_state cfg s0 = Inr st0"
  shows "\<exists>st1. read_state cfg (fst (run cfg reqs s0)) = Inr st1
     \<and> total_votes st1 = total_votes st0 + int (successful_results (snd (run cfg reqs s0)))"
  using assms
proof (induction reqs arbitrary: s0 st0)
  case Nil
  then show ?case by (simp add: successful_results_def)
next
  case (Cons rq reqs)
  obtain s' out where h: "handle cfg rq s0 = (s', out)" by (cases "handle cfg rq s0")
  from handle_total_votes [OF Cons.prems h] obtain st' where
    rd: "read_state cfg s' = Inr st'"
    and tv: "total_votes st' = total_votes st0 + (if is_result out then 1 else 0)" by blast
  from Cons.IH [OF rd] obtain st1 where
    "read_state cfg (fst (run cfg reqs s')) = Inr st1"
    "total_votes st1 = total_votes st' + int (successful_results (snd (run cfg reqs s')))" by blast
  with tv h show ?case
    by (simp only: run_Cons fst_conv snd_conv) (simp add: successful_results_def)
qed

text \<open>
  Claim C2. A successful \<open>submit_result\<close> for token \<open>t\<close> and winner \<open>w\<close> consumed a
  pending battle whose two different models are \<open>w\<close> and the loser \<open>l\<close>. Between
  the store as read before and as read after: the ratings are those of
  \<open>elo_update\<close> for \<open>w\<close> and \<open>l\<close> with \<open>k = 32\<close>, the rating of every other model is
  unchanged, the vote count of \<open>w\<close> is one more (counting from 0 if it had
  none), the vote count of every other model is unchanged, and \<open>total_votes\<close>
  is one more; the response carries the new total and the leaderboard of the
  new state. For every sequence of requests from a readable store,
  \<open>total_votes\<close> afterwards is \<open>total_votes\<close> before plus the number of successful
  result submissions.
\<close>

theorem submit_result_mutations:
  "(submit_result cfg t w s = (s', Inr (lb, n)) \<longrightarrow>
      (\<exists>b l state state'. ACTIVE_BATTLES s t = Some b
         \<and> (w = model_a b \<and> l = model_b b \<or> w = model_b b \<and> l = model_a b) \<and> w \<noteq> l
         \<and> read_state cfg s = Inr state \<and> read_state cfg s' = Inr state'
         \<and> elo_update (elos state) w l 32 = Inr (elos state')
         \<and> (\<forall>m. m \<noteq> w \<and> m \<noteq> l \<longrightarrow> map_of (elos state') m = map_of (elos state) m)
         \<and> map_of (votes state') w = Some (get_default (votes state) w 0 + 1)
         \<and> (\<forall>m. m \<noteq> w \<longrightarrow> map_of (votes state') m = map_of (votes state) m)
         \<and> total_votes state' = total_votes state + 1
         \<and> n = total_votes state' \<and> lb = build_leaderboard (elos state') (votes state')))
   \<and> (read_state cfg s0 = Inr st0 \<longrightarrow>
        (\<exists>st1. read_state cfg (fst (run cfg reqs s0)) = Inr st1
           \<and> total_votes st1 = total_votes st0 + int (successful_results (snd (run cfg reqs s0)))))"
  using submit_result_success [of cfg t w s s' lb n] run_total_votes [of cfg s0 st0 reqs]
  by blast

lemma example_run:
  "run example_config
     [GetBattle example_rnd, PostBattleResult (Some ''t1'') (Some ''a''),
      PostBattleResult (Some ''t1'') (Some ''a''), GetLeaderboard] (startup None)
   = (\<lparr>ELO_FILE = Some (save_state example_voted), ACTIVE_BATTLES = Map.empty\<rparr>,
      [Inr (Battle \<lparr>cmp_battle_id = ''t1'', cmp_category = ''pun'',
          cmp_contestants =
            [\<lparr>contestant_id = ''b'', contestant_joke = ''jb'', contestant_rank = Some 2\<rparr>,
             \<lparr>contestant_id = ''a'', contestant_joke = ''ja1'', contestant_rank = Some 1\<rparr>]\<rparr>),
       Inr (Result example_board 1), Inl UnknownToken, Inr (Board example_board 1)])"
  by (simp add: eval_defs ledger_defs)

theorem submit_result_mutations_witness:
  "submit_result example_config ''t1'' ''a'' example_pending =
     (\<lparr>ELO_FILE = Some (save_state example_voted), ACTIVE_BATTLES = Map.empty\<rparr>,
      Inr (example_board, 1))
   \<and> read_state example_config example_pending
       = Inr \<lparr>elos = [(''a'', 1500), (''b'', 1500)], votes = [(''a'', 0), (''b'', 0)], total_votes = 0\<rparr>
   \<and> read_state example_config \<lparr>ELO_FILE = Some (save_state example_voted), ACTIVE_BATTLES = Map.empty\<rparr>
       = Inr example_voted
   \<and> read_state example_config (startup None)
       = Inr \<lparr>elos = [(''a'', 1500), (''b'', 1500)], votes = [(''a'', 0), (''b'', 0)], total_votes = 0\<rparr>
   \<and> successful_results (snd (run example_config
        [GetBattle example_rnd, PostBattleResult (Some ''t1'') (Some ''a''),
         PostBattleResult (Some ''t1'') (Some ''a''), GetLeaderboard] (startup None))) = 1
   \<and> (\<exists>st1. read_state example_config (fst (run example_config
        [GetBattle example_rnd, PostBattleResult (Some ''t1'') (Some ''a''),
         PostBattleResult (Some ''t1'') (Some ''a''), GetLeaderboard] (startup None))) = Inr st1
        \<and> total_votes st1 = 1)"
proof -
  have r0: "read_state example_config (startup None)
       = Inr \<lparr>elos = [(''a'', 1500), (''b'', 1500)], votes = [(''a'', 0), (''b'', 0)], total_votes = 0\<rparr>"
    by (simp add: eval_defs)
  have r1: "read_state example_config example_pending
       = Inr \<lparr>elos = [(''a'', 1500), (''b'', 1500)], votes = [(''a'', 0), (''b'', 0)], total_votes = 0\<rparr>"
    by (simp add: eval_defs ledger_defs)
  have r2: "read_state example_config \<lparr>ELO_FILE = Some (save_state example_voted), ACTIVE_BATTLES = Map.empty\<rparr>
       = Inr example_voted"
    by (simp add: eval_defs ledger_defs)
  have c: "successful_results (snd (run example_config
        [GetBattle example_rnd, PostBattleResult (Some ''t1'') (Some ''a''),
         PostBattleResult (Some ''t1'') (Some ''a''), GetLeaderboard] (startup None))) = 1"
    by (simp only: example_run snd_conv) (simp add: successful_results_def)
  from submit_result_mutations [of example_config "''t1''" "''a''" example_pending
      "\<lparr>ELO_FILE = Some (save_state example_voted), ACTIVE_BATTLES = Map.empty\<rparr>" example_board 1
      "startup None"
      "\<lparr>elos = [(''a'', 1500), (''b'', 1500)], votes = [(''a'', 0), (''b'', 0)], total_votes = 0\<rparr>"
      "[GetBattle example_rnd, PostBattleResult (Some ''t1'') (Some ''a''),
         PostBattleResult (Some ''t1'') (Some ''a''), GetLeaderboard]"] r0 c
  have "\<exists>st1. read_state example_config (fst (run example_config
        [GetBattle example_rnd, PostBattleResult (Some ''t1'') (Some ''a''),
         PostBattleResult (Some ''t1'') (Some ''a''), GetLeaderboard] (startup None))) = Inr st1
        \<and> total_votes st1 = 1"
    by simp
  with example_submit r0 r1 r2 c show ?thesis by blast
qed

lemma handle_battles_in_roster:
  assumes "battles_in_roster cfg s"
  shows "battles_in_roster cfg (fst (handle cfg rq s))"
proof -
  obtain s' out where h: "handle cfg rq s = (s', out)" by (cases "handle cfg rq s")
  have "ACTIVE_BATTLES s' = ACTIVE_BATTLES s
     \<or> (\<exists>t ma mb. ACTIVE_BATTLES s' = (ACTIVE_BATTLES s)(t \<mapsto> \<lparr>model_a = ma, model_b = mb\<rparr>)
           \<and> ma \<in> set (MODELS cfg) \<and> mb \<in> set (MODELS cfg))
     \<or> (\<exists>t. ACTIVE_BATTLES s' = (ACTIVE_BATTLES s)(t := None))"
    using handle_state [OF h] submit_result_battles [of cfg _ _ s]
    by (metis fst_conv)
  with assms have "battles_in_roster cfg s'"
    unfolding battles_in_roster_def by (auto split: if_splits)
  with h show ?thesis by simp
qed

lemma run_battles_in_roster:
  assumes "battles_in_roster cfg s"
  shows "battles_in_roster cfg (fst (run cfg reqs s))"
  using assms
proof (induction reqs arbitrary: s)
  case Nil
  then show ?case by simp
next
  case (Cons rq reqs)
  from Cons.prems have "battles_in_roster cfg (fst (handle cfg rq s))"
    by (rule handle_battles_in_roster)
  then have "battles_in_roster cfg (fst (run cfg reqs (fst (handle cfg rq s))))"
    by (rule Cons.IH)
  then show ?case by (simp only: run_Cons fst_conv)
qed

lemma submit_result_no_key_error:
  assumes inv: "battles_in_roster cfg s"
  shows "snd (submit_result cfg t w s) \<noteq> Inl (KeyError k)"
proof (cases "ACTIVE_BATTLES s t")
  case None
  then show ?thesis by (simp add: submit_result_unknown)
next
  case (Some b)
  from inv Some have ab: "model_a b \<in> set (MODELS cfg)" "model_b b \<in> set (MODELS cfg)"
    by (auto simp: battles_in_roster_def)
  define s1 where "s1 = s\<lparr>ACTIVE_BATTLES := (ACTIVE_BATTLES s)(t := None)\<rparr>"
  have u: "snd (update_state cfg (\<lambda>elo_state. record_battle_result elo_state w l) s1) \<noteq> Inl (KeyError k)"
    if "w \<in> set (MODELS cfg)" "l \<in> set (MODELS cfg)" for l
  proof (cases "load_state (MODELS cfg) (ELO_FILE s1)")
    case (Inl e)
    then have "e = TypeError" by (rule load_state_error)
    with Inl show ?thesis by (simp add: update_state_def)
  next
    case (Inr state)
    from load_state_has_roster [OF Inr] that
    have "map_of (elos state) w \<noteq> None" "map_of (elos state) l \<noteq> None" by auto
    then obtain e' where "elo_update (elos state) w l 32 = Inr e'"
      using elo_update_total by blast
    then show ?thesis using Inr
      by (simp add: update_state_def record_battle_result_def Let_def)
  qed
  have resp: "snd (case p of (s2, Inl e) \<Rightarrow> (s2, Inl e)
        | (s2, Inr (state, leaderboard)) \<Rightarrow> (s2, Inr (leaderboard, total_votes state))) \<noteq> Inl (KeyError k)"
    if "snd p \<noteq> Inl (KeyError k)" for p :: "sys \<times> (error + EloState \<times> entry list)"
    using that by (cases p) (auto split: sum.splits)
  show ?thesis
  proof (cases "w \<noteq> model_a b \<and> w \<noteq> model_b b")
    case True
    then show ?thesis by (simp add: submit_result_known [OF Some] Let_def)
  next
    case False
    show ?thesis
    proof (cases "model_a b = model_b b")
      case True
      with False show ?thesis by (simp add: submit_result_known [OF Some] Let_def)
    next
      case ne: False
      define l where "l = (if w = model_a b then model_b b else model_a b)"
      from False ab have "w \<in> set (MODELS cfg)" "l \<in> set (MODELS cfg)" by (auto simp: l_def)
      then have "snd (update_state cfg (\<lambda>elo_state. record_battle_result elo_state w l) s1)
          \<noteq> Inl (KeyError k)" by (rule u)
      then have "snd (case update_state cfg (\<lambda>elo_state. record_battle_result elo_state w l) s1 of
            (s2, Inl e) \<Rightarrow> (s2, Inl e)
          | (s2, Inr (state, leaderboard)) \<Rightarrow> (s2, Inr (leaderboard, total_votes state)))
          \<noteq> Inl (KeyError k)" by (rule resp)
      moreover have "submit_result cfg t w s =
          (case update_state cfg (\<lambda>elo_state. record_battle_result elo_state w l) s1 of
            (s2, Inl e) \<Rightarrow> (s2, Inl e)
          | (s2, Inr (state, leaderboard)) \<Rightarrow> (s2, Inr (leaderboard, total_votes state)))"
        using False ne by (auto simp: submit_result_known [OF Some] Let_def s1_def l_def)
      ultimately show ?thesis by simp
    qed
  qed
qed

text \<open>
  Claim C10. In every state the service reaches from startup, whatever the
  rating file held, both models of every pending battle are roster models;
  every state a load returns has a rating for every roster model; so
  \<open>submit_result\<close> never fails with the \<open>KeyError\<close> of a rating lookup.
\<close>

theorem rating_lookup_never_missing:
  "battles_in_roster cfg (fst (run cfg reqs (startup file)))
   \<and> (read_state cfg (fst (run cfg reqs (startup file))) = Inr state \<longrightarrow>
        (\<forall>m\<in>set (MODELS cfg). map_of (elos state) m \<noteq> None))
   \<and> snd (submit_result cfg t w (fst (run cfg reqs (startup file)))) \<noteq> Inl (KeyError k)"
proof -
  have "battles_in_roster cfg (startup file)"
    by (simp add: battles_in_roster_def startup_def)
  then have inv: "battles_in_roster cfg (fst (run cfg reqs (startup file)))"
    by (rule run_battles_in_roster)
  moreover have "\<forall>m\<in>set (MODELS cfg). map_of (elos state) m \<noteq> None"
    if "read_state cfg (fst (run cfg reqs (startup file))) = Inr state"
    using that load_state_has_roster unfolding read_state_def by blast
  moreover note submit_result_no_key_error [OF inv]
  ultimately show ?thesis by blast
qed

theorem rating_lookup_never_missing_witness:
  "fst (run example_config [GetBattle example_rnd] (startup None)) = example_pending
   \<and> ACTIVE_BATTLES example_pending ''t1'' = Some \<lparr>model_a = ''b'', model_b = ''a''\<rparr>
   \<and> battles_in_roster example_config example_pending
   \<and> read_state example_config example_pending
       = Inr \<lparr>elos = [(''a'', 1500), (''b'', 1500)], votes = [(''a'', 0), (''b'', 0)], total_votes = 0\<rparr>
   \<and> map_of [(''a'', 1500::real), (''b'', 1500)] ''b'' \<noteq> None
   \<and> snd (submit_result example_config ''t1'' ''a'' example_pending) = Inr (example_board, 1)
   \<and> snd (submit_result example_config ''t1'' ''a'' example_pending) \<noteq> Inl (KeyError ''a'')"
proof -
  have run1: "fst (run example_config [GetBattle example_rnd] (startup None)) = example_pending"
    by (simp add: eval_defs ledger_defs)
  have p: "ACTIVE_BATTLES example_pending ''t1'' = Some \<lparr>model_a = ''b'', model_b = ''a''\<rparr>"
    by (simp add: example_pending_def)
  have rd: "read_state example_config example_pending
       = Inr \<lparr>elos = [(''a'', 1500), (''b'', 1500)], votes = [(''a'', 0), (''b'', 0)], total_votes = 0\<rparr>"
    by (simp add: eval_defs ledger_defs)
  from rating_lookup_never_missing [of example_config "[GetBattle example_rnd]" None
      "\<lparr>elos = [(''a'', 1500), (''b'', 1500)], votes = [(''a'', 0), (''b'', 0)], total_votes = 0\<rparr>"
      "''t1''" "''a''" "''a''"] run1 rd
  have "battles_in_roster example_config example_pending"
    and "map_of [(''a'', 1500::real), (''b'', 1500)] ''b'' \<noteq> None"
    and "snd (submit_result example_config ''t1'' ''a'' example_pending) \<noteq> Inl (KeyError ''a'')"
    by (simp_all add: example_config_def)
  with run1 p rd example_submit show ?thesis by simp
qed

section \<open>Availability of the matchmaker\<close>



end
